theory Spec2Isabelle
  imports Main "HOL-Library.Word"
begin

section \<open>Terminal session proxy (cluster-manager/terminal.go)\<close>

subsection \<open>Bytes, run-time panics and the terminal device\<close>

type_synonym byte = "8 word"
type_synonym uint16 = "16 word"

text \<open>A Go string or byte slice is a sequence of bytes; a literal is written as an
  Isabelle string and converted bytewise.\<close>

definition bytes :: "string \<Rightarrow> byte list" where
  "bytes s = map of_char s"

text \<open>The run-time panics of Go that the session code can raise.\<close>

datatype panic = IndexOutOfRange | SliceOutOfRange | CloseOfClosedChannel

text \<open>\<open>pty.Winsize\<close>: only \<open>Rows\<close> and \<open>Cols\<close> are ever set by the program.\<close>

record Winsize =
  Rows :: uint16
  Cols :: uint16

text \<open>The pseudo-terminal handle \<open>ptmx\<close> as the program sees it: the size last given to
  the device, the chunks the program has passed to \<open>ptmx.Write\<close> (oldest first), and
  whether \<open>ptmx.Close\<close> has been called.\<close>

record pty =
  winsize :: Winsize
  written :: "byte list list"
  released :: bool

text \<open>\<open>pty.Setsize(ptmx, ws)\<close>: the device takes the size; the program discards the
  call's error result.\<close>

definition Setsize :: "pty \<Rightarrow> Winsize \<Rightarrow> pty" where
  "Setsize ptmx ws = ptmx\<lparr>winsize := ws\<rparr>"

subsection \<open>The control-frame decoder \<open>handleResize\<close>\<close>

text \<open>\<open>str[j]\<close> panics when \<open>j\<close> is not below \<open>len(str)\<close>.\<close>

definition index :: "byte list \<Rightarrow> nat \<Rightarrow> panic + byte" where
  "index str j = (if j < length str then Inr (str ! j) else Inl IndexOutOfRange)"

text \<open>\<open>str[lo:hi]\<close> panics unless \<open>lo \<le> hi \<le> len(str)\<close>.\<close>

definition slice :: "byte list \<Rightarrow> nat \<Rightarrow> nat \<Rightarrow> panic + byte list" where
  "slice str lo hi =
     (if lo \<le> hi \<and> hi \<le> length str then Inr (take (hi - lo) (drop lo str))
      else Inl SliceOutOfRange)"

text \<open>The condition of the separator loop,
  \<open>j < len(str) && str[j] == ' ' || str[j] == ':'\<close>. In Go \<open>&&\<close> binds tighter than
  \<open>||\<close>, so the second \<open>str[j]\<close> is evaluated whenever the left conjunction is false,
  also when \<open>j\<close> is out of range.\<close>

definition sepCond :: "byte list \<Rightarrow> nat \<Rightarrow> panic + bool" where
  "sepCond str j =
     (if j < length str \<and> str ! j = 0x20 then Inr True
      else case index str j of Inl e \<Rightarrow> Inl e | Inr c \<Rightarrow> Inr (c = 0x3A))"

text \<open>\<open>for j < len(str) && str[j] == ' ' || str[j] == ':' { j++ }\<close>\<close>

function skipSep :: "byte list \<Rightarrow> nat \<Rightarrow> panic + nat" where
  "skipSep str j =
     (case sepCond str j of
        Inl e \<Rightarrow> Inl e
      | Inr b \<Rightarrow> if b then skipSep str (j + 1) else Inr j)"
  by pat_completeness auto
termination
  by (relation "measure (\<lambda>(str, j). length str - j)")
     (auto simp: sepCond_def index_def split: if_splits)

declare skipSep.simps [simp del]

text \<open>\<open>for j < len(str) && str[j] >= '0' && str[j] <= '9' { num = num*10 + uint16(str[j]-'0'); j++ }\<close>
  with \<open>num\<close> a \<open>uint16\<close>, whose arithmetic wraps.\<close>

function parseNum :: "byte list \<Rightarrow> nat \<Rightarrow> uint16 \<Rightarrow> uint16" where
  "parseNum str j num =
     (if j < length str \<and> str ! j \<ge> 0x30 \<and> str ! j \<le> 0x39
      then parseNum str (j + 1) (num * 10 + ucast (str ! j - 0x30))
      else num)"
  by pat_completeness auto
termination
  by (relation "measure (\<lambda>(str, j, num). length str - j)") auto

declare parseNum.simps [simp del]

text \<open>One \<open>if str[i:i+6] == key { ... }\<close> block of the scan: \<open>cur\<close> is the variable
  (\<open>cols\<close> or \<open>rows\<close>) the block may assign.\<close>

definition scanKey :: "byte list \<Rightarrow> nat \<Rightarrow> byte list \<Rightarrow> uint16 \<Rightarrow> panic + uint16" where
  "scanKey str i key cur =
     (case slice str i (i + 6) of
        Inl e \<Rightarrow> Inl e
      | Inr w \<Rightarrow>
          if w = key then
            (case skipSep str (i + 7) of
               Inl e \<Rightarrow> Inl e
             | Inr j \<Rightarrow>
                 let num = parseNum str j 0
                 in if num > 0 then Inr num else Inr cur)
          else Inr cur)"

definition colsKey :: "byte list" where
  "colsKey = [0x22, 0x63, 0x6F, 0x6C, 0x73, 0x22]"

definition rowsKey :: "byte list" where
  "rowsKey = [0x22, 0x72, 0x6F, 0x77, 0x73, 0x22]"

text \<open>\<open>for i := 0; i < len(str)-5; i++ { ... }\<close> over the pair \<open>(cols, rows)\<close>; the
  bound is computed on Go's signed \<open>int\<close>.\<close>

function scan :: "byte list \<Rightarrow> nat \<Rightarrow> uint16 \<times> uint16 \<Rightarrow> panic + uint16 \<times> uint16" where
  "scan str i (cols, rows) =
     (if int i < int (length str) - 5 then
        (case scanKey str i colsKey cols of
           Inl e \<Rightarrow> Inl e
         | Inr cols' \<Rightarrow>
             (case scanKey str i rowsKey rows of
                Inl e \<Rightarrow> Inl e
              | Inr rows' \<Rightarrow> scan str (i + 1) (cols', rows')))
      else Inr (cols, rows))"
  by pat_completeness auto
termination
  by (relation "measure (\<lambda>(str, i, cr). length str - i)") auto

declare scan.simps [simp del]

text \<open>The local variables start at \<open>80, 24\<close>; the scan runs only on more than ten bytes;
  \<open>pty.Setsize\<close> is called in every case that reaches the end of the function.\<close>

definition handleResize :: "pty \<Rightarrow> byte list \<Rightarrow> panic + pty" where
  "handleResize ptmx data =
     (let str = data in
      case (if length str > 10 then scan str 0 (80, 24) else Inr (80, 24)) of
        Inl e \<Rightarrow> Inl e
      | Inr (cols, rows) \<Rightarrow> Inr (Setsize ptmx \<lparr>Rows = rows, Cols = cols\<rparr>))"

subsection \<open>What the decoder is specified to compute\<close>

text \<open>The specification describes the decoder as a field scanner: a field is located by
  a literal key match and a following run of ASCII digits. These definitions follow those
  words; the theorems below compare \<open>handleResize\<close> with them.\<close>

text \<open>The six bytes of \<open>key\<close> stand at position \<open>i\<close> of \<open>str\<close>.\<close>

definition keyAt :: "byte list \<Rightarrow> byte list \<Rightarrow> nat \<Rightarrow> bool" where
  "keyAt key str i \<longleftrightarrow> i + 6 \<le> length str \<and> take 6 (drop i str) = key"

definition keyPositionsFrom :: "byte list \<Rightarrow> byte list \<Rightarrow> nat \<Rightarrow> nat list" where
  "keyPositionsFrom key str i = filter (keyAt key str) [i..<length str]"

definition keyPositions :: "byte list \<Rightarrow> byte list \<Rightarrow> nat list" where
  "keyPositions key str = keyPositionsFrom key str 0"

text \<open>The number the code reads for a key found at \<open>i\<close> (0 when there is no digit, and
  here also where the separator loop panics).\<close>

definition fieldAt :: "byte list \<Rightarrow> nat \<Rightarrow> uint16" where
  "fieldAt str i = (case skipSep str (i + 7) of Inl e \<Rightarrow> 0 | Inr j \<Rightarrow> parseNum str j 0)"

text \<open>The values of a field, one for each place its key occurs, in order.\<close>

definition fieldVals :: "byte list \<Rightarrow> byte list \<Rightarrow> uint16 list" where
  "fieldVals key str = map (fieldAt str) (keyPositions key str)"

definition isDigit :: "byte \<Rightarrow> bool" where
  "isDigit c \<longleftrightarrow> 0x30 \<le> c \<and> c \<le> 0x39"

text \<open>The unbounded decimal value of a digit string, read left to right from \<open>n\<close>.\<close>

fun decimal :: "nat \<Rightarrow> byte list \<Rightarrow> nat" where
  "decimal n [] = n"
| "decimal n (d # ds) = decimal (n * 10 + (unat d - 48)) ds"

text \<open>A space or a colon, the bytes that may stand between a key and its number.\<close>

definition isSep :: "byte \<Rightarrow> bool" where
  "isSep c \<longleftrightarrow> c = 0x20 \<or> c = 0x3A"

text \<open>The run of ASCII digits that follows the key at \<open>i\<close>: the byte right after the key
  is passed over, then any spaces and colons.\<close>

definition fieldDigits :: "byte list \<Rightarrow> nat \<Rightarrow> byte list" where
  "fieldDigits str i = takeWhile isDigit (dropWhile isSep (drop (i + 7) str))"

text \<open>The number written in the frame for the key at \<open>i\<close>, as an unbounded integer.\<close>

definition fieldDecimal :: "byte list \<Rightarrow> nat \<Rightarrow> nat" where
  "fieldDecimal str i = decimal 0 (fieldDigits str i)"

subsection \<open>The session \<open>runTerminalSession\<close> as a transition system\<close>

text \<open>Three threads of control run one session: the function body itself, the goroutine
  copying terminal output to the websocket, and the goroutine copying websocket input to
  the terminal. Each is a program counter over the blocking calls and channel operations
  of its code; a step of the system is one such operation of one thread, labelled with
  the result the environment gives to the call.\<close>

datatype io_error = EOF | Failure string

datatype log_entry =
    StartFailed string
  | PtyReadError io_error
  | WsWriteError io_error
  | WsReadError io_error
  | PtyWriteError io_error
  | CommandError string

text \<open>Program points of the function body: before \<open>pty.Start\<close>; blocked in
  \<open>cmd.Wait\<close>; before \<open>close(done)\<close>, \<open>ws.Close()\<close>, \<open>wg.Wait()\<close>; running the
  deferred \<open>ptmx.Close()\<close> (normally, or while a panic unwinds); returned; left by a
  panic.\<close>

datatype main_pc =
    M_Start | M_Wait | M_CloseDone | M_WsClose | M_WgWait
  | M_Deferred "panic option" | M_Returned | M_Panicked panic

text \<open>Program points of the first goroutine (pty output to websocket): at the
  \<open>select\<close>, inside \<open>ptmx.Read\<close>, inside \<open>ws.Write\<close>.\<close>

datatype out_pc = A_NotStarted | A_Select | A_Read | A_Write | A_Exited

text \<open>Program points of the second goroutine (websocket input to pty): inside
  \<open>ws.Read\<close>, before \<open>close(done)\<close>, before \<open>cmd.Process.Signal\<close>, inside
  \<open>ptmx.Write\<close>. A panic in a goroutine is not recovered and ends the program.\<close>

datatype in_pc =
    B_NotStarted | B_Read | B_CloseDone | B_Signal | B_Write | B_Exited | B_Panicked panic

text \<open>The websocket as the program sees it: the chunks passed to \<open>ws.Write\<close> and
  whether \<open>ws.Close\<close> has been called.\<close>

record transport =
  sent :: "byte list list"
  closed :: bool

record session =
  mainPc :: main_pc
  outPc :: out_pc
  inPc :: in_pc
  ws :: transport
  ptmx :: "pty option"
  doneClosed :: bool
  wg :: nat
  interrupts :: nat
  logged :: "log_entry list"

text \<open>A step label names the operation that completes and carries its result:
  \<open>pty.Start\<close> and \<open>cmd.Wait\<close> with the error text if any, a read with the bytes
  \<open>buf[:n]\<close> and the error, a write with the error; \<open>MainStep\<close>, \<open>Select\<close> and
  \<open>InStep\<close> are the steps that take no result from outside.\<close>

datatype event =
    PtyStart "string option"
  | CmdWait "string option"
  | MainStep
  | Select
  | PtyRead "byte list" "io_error option"
  | WsWrite "io_error option"
  | WsRead "byte list" "io_error option"
  | PtyWrite "io_error option"
  | InStep

definition init :: session where
  "init = \<lparr>mainPc = M_Start, outPc = A_NotStarted, inPc = B_NotStarted,
            ws = \<lparr>sent = [], closed = False\<rparr>, ptmx = None, doneClosed = False,
            wg = 0, interrupts = 0, logged = []\<rparr>"

definition logPrintf :: "log_entry \<Rightarrow> session \<Rightarrow> session" where
  "logPrintf l s = s\<lparr>logged := logged s @ [l]\<rparr>"

text \<open>\<open>if err != io.EOF { log.Printf(...) }\<close>\<close>

definition logUnlessEOF :: "(io_error \<Rightarrow> log_entry) \<Rightarrow> io_error \<Rightarrow> session \<Rightarrow> session" where
  "logUnlessEOF f e s = (if e \<noteq> EOF then logPrintf (f e) s else s)"

definition wsWrite :: "byte list \<Rightarrow> session \<Rightarrow> session" where
  "wsWrite b s = s\<lparr>ws := (ws s)\<lparr>sent := sent (ws s) @ [b]\<rparr>\<rparr>"

definition wsClose :: "session \<Rightarrow> session" where
  "wsClose s = s\<lparr>ws := (ws s)\<lparr>closed := True\<rparr>\<rparr>"

definition ptmxWrite :: "byte list \<Rightarrow> session \<Rightarrow> session" where
  "ptmxWrite b s = s\<lparr>ptmx := map_option (\<lambda>p. p\<lparr>written := written p @ [b]\<rparr>) (ptmx s)\<rparr>"

definition ptmxClose :: "session \<Rightarrow> session" where
  "ptmxClose s = s\<lparr>ptmx := map_option (\<lambda>p. p\<lparr>released := True\<rparr>) (ptmx s)\<rparr>"

text \<open>The deferred \<open>wg.Done()\<close> of a goroutine.\<close>

definition wgDone :: "session \<Rightarrow> session" where
  "wgDone s = s\<lparr>wg := wg s - 1\<rparr>"

text \<open>The terminal \<open>pty.Start\<close> returns, before the program sets a size.\<close>

definition freshPty :: pty where
  "freshPty = \<lparr>winsize = \<lparr>Rows = 0, Cols = 0\<rparr>, written = [], released = False\<rparr>"

definition startFailedLine :: "string \<Rightarrow> byte list" where
  "startFailedLine msg = bytes (''Failed to start terminal: '' @ msg @ [CHR 0x0D, CHR 0x0A])"

text \<open>Steps of the function body. A failed \<open>pty.Start\<close> is followed by the log line, the
  write, the close and the return, with no other thread in existence. A successful one is
  followed by \<open>defer\<close>, \<open>pty.Setsize\<close> to 24 rows and 80 columns, and the two
  \<open>wg.Add(1); go ...\<close>, up to the blocking \<open>cmd.Wait()\<close>.\<close>

fun mainStep :: "event \<Rightarrow> session \<Rightarrow> session option" where
  "mainStep (PtyStart (Some msg)) s =
     (if mainPc s = M_Start
      then Some ((wsClose (wsWrite (startFailedLine msg) (logPrintf (StartFailed msg) s)))
                   \<lparr>mainPc := M_Returned\<rparr>)
      else None)"
| "mainStep (PtyStart None) s =
     (if mainPc s = M_Start
      then Some (s\<lparr>ptmx := Some (Setsize freshPty \<lparr>Rows = 24, Cols = 80\<rparr>),
                   wg := wg s + 2, outPc := A_Select, inPc := B_Read, mainPc := M_Wait\<rparr>)
      else None)"
| "mainStep (CmdWait err) s =
     (if mainPc s = M_Wait
      then Some ((case err of None \<Rightarrow> s | Some msg \<Rightarrow> logPrintf (CommandError msg) s)
                   \<lparr>mainPc := M_CloseDone\<rparr>)
      else None)"
| "mainStep MainStep s =
     (case mainPc s of
        M_CloseDone \<Rightarrow>
          if doneClosed s then Some (s\<lparr>mainPc := M_Deferred (Some CloseOfClosedChannel)\<rparr>)
          else Some (s\<lparr>doneClosed := True, mainPc := M_WsClose\<rparr>)
      | M_WsClose \<Rightarrow> Some ((wsClose s)\<lparr>mainPc := M_WgWait\<rparr>)
      | M_WgWait \<Rightarrow> if wg s = 0 then Some (s\<lparr>mainPc := M_Deferred None\<rparr>) else None
      | M_Deferred None \<Rightarrow> Some ((ptmxClose s)\<lparr>mainPc := M_Returned\<rparr>)
      | M_Deferred (Some p) \<Rightarrow> Some ((ptmxClose s)\<lparr>mainPc := M_Panicked p\<rparr>)
      | _ \<Rightarrow> None)"
| "mainStep _ s = None"

text \<open>Steps of the goroutine copying pty output to the websocket (lines 36 to 59).\<close>

fun outStep :: "event \<Rightarrow> session \<Rightarrow> session option" where
  "outStep Select s =
     (if outPc s = A_Select
      then (if doneClosed s then Some ((wgDone s)\<lparr>outPc := A_Exited\<rparr>)
            else Some (s\<lparr>outPc := A_Read\<rparr>))
      else None)"
| "outStep (PtyRead chunk err) s =
     (if outPc s = A_Read
      then (case err of
              Some e \<Rightarrow> Some ((wgDone (logUnlessEOF PtyReadError e s))\<lparr>outPc := A_Exited\<rparr>)
            | None \<Rightarrow>
                if length chunk > 0 then Some ((wsWrite chunk s)\<lparr>outPc := A_Write\<rparr>)
                else Some (s\<lparr>outPc := A_Select\<rparr>))
      else None)"
| "outStep (WsWrite err) s =
     (if outPc s = A_Write
      then (case err of
              Some e \<Rightarrow> Some ((wgDone (logPrintf (WsWriteError e) s))\<lparr>outPc := A_Exited\<rparr>)
            | None \<Rightarrow> Some (s\<lparr>outPc := A_Select\<rparr>))
      else None)"
| "outStep _ s = None"

text \<open>Steps of the goroutine copying websocket input to the pty (lines 63 to 88).
  \<open>close\<close> of a closed channel panics; so does \<open>handleResize\<close> when an index is out of
  range. The goroutine is started only after \<open>pty.Start\<close> has succeeded, so the terminal
  exists whenever it steps. The chunk is recorded as written when \<open>ptmx.Write\<close> is
  called; the result of the call decides only how the loop goes on.\<close>

fun inStep :: "event \<Rightarrow> session \<Rightarrow> session option" where
  "inStep (WsRead chunk err) s =
     (if inPc s = B_Read
      then (case err of
              Some e \<Rightarrow> Some ((logUnlessEOF WsReadError e s)\<lparr>inPc := B_CloseDone\<rparr>)
            | None \<Rightarrow>
                if length chunk > 0 then
                  (if chunk ! 0 = 0x7B then
                     (case ptmx s of
                        None \<Rightarrow> None
                      | Some p \<Rightarrow>
                          (case handleResize p chunk of
                             Inl e \<Rightarrow> Some ((wgDone s)\<lparr>inPc := B_Panicked e\<rparr>)
                           | Inr p' \<Rightarrow> Some (s\<lparr>ptmx := Some p'\<rparr>)))
                   else Some ((ptmxWrite chunk s)\<lparr>inPc := B_Write\<rparr>))
                else Some s)
      else None)"
| "inStep InStep s =
     (case inPc s of
        B_CloseDone \<Rightarrow>
          if doneClosed s then Some ((wgDone s)\<lparr>inPc := B_Panicked CloseOfClosedChannel\<rparr>)
          else Some (s\<lparr>doneClosed := True, inPc := B_Signal\<rparr>)
      | B_Signal \<Rightarrow> Some ((wgDone (s\<lparr>interrupts := interrupts s + 1\<rparr>))\<lparr>inPc := B_Exited\<rparr>)
      | _ \<Rightarrow> None)"
| "inStep (PtyWrite err) s =
     (if inPc s = B_Write
      then (case err of
              Some e \<Rightarrow> Some ((wgDone (logPrintf (PtyWriteError e) s))\<lparr>inPc := B_Exited\<rparr>)
            | None \<Rightarrow> Some (s\<lparr>inPc := B_Read\<rparr>))
      else None)"
| "inStep _ s = None"

text \<open>The program has ended when a goroutine has panicked; otherwise a label is a step
  of the thread it belongs to. A panic of the function body runs its deferred call and
  leaves the function; it does not by itself stop the goroutines.\<close>

definition crashed :: "session \<Rightarrow> bool" where
  "crashed s = (case inPc s of B_Panicked p \<Rightarrow> True | _ \<Rightarrow> False)"

fun threadStep :: "event \<Rightarrow> session \<Rightarrow> session option" where
  "threadStep (PtyStart r) s = mainStep (PtyStart r) s"
| "threadStep (CmdWait r) s = mainStep (CmdWait r) s"
| "threadStep MainStep s = mainStep MainStep s"
| "threadStep Select s = outStep Select s"
| "threadStep (PtyRead b r) s = outStep (PtyRead b r) s"
| "threadStep (WsWrite r) s = outStep (WsWrite r) s"
| "threadStep (WsRead b r) s = inStep (WsRead b r) s"
| "threadStep (PtyWrite r) s = inStep (PtyWrite r) s"
| "threadStep InStep s = inStep InStep s"

definition step :: "event \<Rightarrow> session \<Rightarrow> session option" where
  "step e s = (if crashed s then None else threadStep e s)"

text \<open>An execution is a sequence of enabled steps.\<close>

fun run :: "event list \<Rightarrow> session \<Rightarrow> session option" where
  "run [] s = Some s"
| "run (e # es) s = (case step e s of None \<Rightarrow> None | Some s' \<Rightarrow> run es s')"

text \<open>The chunks passed to \<open>ptmx.Write\<close> so far.\<close>

definition ptyWritten :: "session \<Rightarrow> byte list list" where
  "ptyWritten s = (case ptmx s of None \<Rightarrow> [] | Some p \<Rightarrow> written p)"

text \<open>What the specification lets through to the terminal: of the chunks the websocket
  delivers, the non-empty ones whose first byte is not \<open>{\<close>, each as it is.\<close>

fun forwardedBy :: "event \<Rightarrow> byte list list" where
  "forwardedBy (WsRead chunk None) =
     (if chunk \<noteq> [] \<and> hd chunk \<noteq> 0x7B then [chunk] else [])"
| "forwardedBy _ = []"

definition forwarded :: "event list \<Rightarrow> byte list list" where
  "forwarded es = concat (map forwardedBy es)"

text \<open>The number of goroutines of the session that have started and not yet run their
  deferred \<open>wg.Done()\<close>.\<close>

fun outRunning :: "out_pc \<Rightarrow> nat" where
  "outRunning A_NotStarted = 0"
| "outRunning A_Exited = 0"
| "outRunning _ = 1"

fun inRunning :: "in_pc \<Rightarrow> nat" where
  "inRunning B_NotStarted = 0"
| "inRunning B_Exited = 0"
| "inRunning (B_Panicked p) = 0"
| "inRunning _ = 1"

definition loopsRunning :: "session \<Rightarrow> nat" where
  "loopsRunning s = outRunning (outPc s) + inRunning (inPc s)"

text \<open>What the shutdown sequence maintains as long as the function body does not panic:
  the wait group counts the running goroutines; past \<open>ws.Close()\<close> the websocket is
  closed; past \<open>wg.Wait()\<close> no goroutine runs.\<close>

definition shutdownInv :: "session \<Rightarrow> bool" where
  "shutdownInv s \<longleftrightarrow>
     wg s = loopsRunning s \<and>
     (mainPc s = M_Start \<longrightarrow> outPc s = A_NotStarted \<and> inPc s = B_NotStarted) \<and>
     (mainPc s = M_WgWait \<longrightarrow> closed (ws s)) \<and>
     (mainPc s = M_Deferred None \<or> mainPc s = M_Returned \<longrightarrow> closed (ws s) \<and> wg s = 0)"

text \<open>The terminal handle exists and \<open>ptmx.Close()\<close> has been called on it.\<close>

definition ptyReleased :: "session \<Rightarrow> bool" where
  "ptyReleased s = (case ptmx s of None \<Rightarrow> False | Some p \<Rightarrow> released p)"

section \<open>Properties of the decoder\<close>

subsection \<open>The scan against the field scanner of the specification\<close>

lemma slice_in_scan:
  "int i < int (length str) - 5 \<Longrightarrow> slice str i (i + 6) = Inr (take 6 (drop i str))"
  by (simp add: slice_def)

lemma scanKey_value:
  assumes "int i < int (length str) - 5" and "scanKey str i key cur = Inr c"
  shows "c = (if keyAt key str i \<and> 0 < fieldAt str i then fieldAt str i else cur)"
  using assms
  by (auto simp: scanKey_def slice_in_scan keyAt_def fieldAt_def Let_def
           split: sum.splits if_splits)

lemma scanKey_no_key:
  assumes "int i < int (length str) - 5" and "\<not> keyAt key str i"
  shows "scanKey str i key cur = Inr cur"
  using assms by (auto simp: scanKey_def slice_in_scan keyAt_def)

lemma keyPositionsFrom_step:
  "int i < int (length str) - 5 \<Longrightarrow>
   keyPositionsFrom key str i =
     (if keyAt key str i then [i] else []) @ keyPositionsFrom key str (i + 1)"
  by (simp add: keyPositionsFrom_def upt_conv_Cons)

lemma keyPositionsFrom_end:
  "\<not> int i < int (length str) - 5 \<Longrightarrow> keyPositionsFrom key str i = []"
  by (auto simp: keyPositionsFrom_def keyAt_def filter_empty_conv)

lemma scan_value:
  "scan str i (cols, rows) = Inr (c, r) \<Longrightarrow>
   c = last (cols # filter (\<lambda>v. 0 < v) (map (fieldAt str) (keyPositionsFrom colsKey str i))) \<and>
   r = last (rows # filter (\<lambda>v. 0 < v) (map (fieldAt str) (keyPositionsFrom rowsKey str i)))"
proof (induction str i "(cols, rows)" arbitrary: cols rows rule: scan.induct)
  case (1 str i cols rows)
  show ?case
  proof (cases "int i < int (length str) - 5")
    case False
    with "1.prems" show ?thesis by (simp add: scan.simps [of str i] keyPositionsFrom_end)
  next
    case True
    from True "1.prems" obtain c1 r1 where
      k1: "scanKey str i colsKey cols = Inr c1" and
      k2: "scanKey str i rowsKey rows = Inr r1" and
      rest: "scan str (i + 1) (c1, r1) = Inr (c, r)"
      by (auto simp: scan.simps [of str i] split: sum.splits)
    note ih = "1.hyps" [OF True k1 k2 rest]
    have c1: "c1 = (if keyAt colsKey str i \<and> 0 < fieldAt str i then fieldAt str i else cols)"
      by (rule scanKey_value [OF True k1])
    have r1: "r1 = (if keyAt rowsKey str i \<and> 0 < fieldAt str i then fieldAt str i else rows)"
      by (rule scanKey_value [OF True k2])
    show ?thesis
      using ih c1 r1 by (simp add: keyPositionsFrom_step [OF True])
  qed
qed

lemma scan_no_key:
  "keyPositionsFrom colsKey str i = [] \<Longrightarrow> keyPositionsFrom rowsKey str i = [] \<Longrightarrow>
   scan str i (cols, rows) = Inr (cols, rows)"
proof (induction str i "(cols, rows)" arbitrary: cols rows rule: scan.induct)
  case (1 str i cols rows)
  show ?case
  proof (cases "int i < int (length str) - 5")
    case False
    then show ?thesis by (simp add: scan.simps [of str i])
  next
    case True
    from "1.prems" have nk: "\<not> keyAt colsKey str i" "\<not> keyAt rowsKey str i"
      and nxt: "keyPositionsFrom colsKey str (i + 1) = []" "keyPositionsFrom rowsKey str (i + 1) = []"
      by (auto simp: keyPositionsFrom_step [OF True] split: if_splits)
    have k1: "scanKey str i colsKey cols = Inr cols" by (rule scanKey_no_key [OF True nk(1)])
    have k2: "scanKey str i rowsKey rows = Inr rows" by (rule scanKey_no_key [OF True nk(2)])
    from "1.hyps" [OF True k1 k2 nxt] k1 k2 True show ?thesis
      by (simp add: scan.simps [of str i])
  qed
qed

lemma handleResize_geometry:
  assumes "handleResize p data = Inr p'"
  shows "p' = Setsize p
           \<lparr>Rows = (if length data > 10
                    then last (24 # filter (\<lambda>v. 0 < v) (fieldVals rowsKey data)) else 24),
            Cols = (if length data > 10
                    then last (80 # filter (\<lambda>v. 0 < v) (fieldVals colsKey data)) else 80)\<rparr>"
proof (cases "length data > 10")
  case False
  with assms show ?thesis by (auto simp: handleResize_def)
next
  case True
  with assms obtain c r where sc: "scan data 0 (80, 24) = Inr (c, r)"
    and p: "p' = Setsize p \<lparr>Rows = r, Cols = c\<rparr>"
    by (auto simp: handleResize_def split: sum.splits)
  from scan_value [OF sc] p True show ?thesis
    by (simp add: fieldVals_def keyPositions_def)
qed

lemma decimal_parseNum:
  "\<forall>n. num = of_nat n \<longrightarrow>
     parseNum str j num = of_nat (decimal n (takeWhile isDigit (drop j str)))"
proof (induction str j num rule: parseNum.induct)
  case (1 str j num)
  show ?case
  proof (cases "j < length str \<and> str ! j \<ge> 0x30 \<and> str ! j \<le> 0x39")
    case False
    then have "takeWhile isDigit (drop j str) = []"
      by (cases "j < length str") (auto simp: isDigit_def takeWhile_eq_Nil_iff hd_drop_conv_nth)
    moreover have "parseNum str j num = num"
      using False by (subst parseNum.simps) auto
    ultimately show ?thesis by auto
  next
    case True
    then have d: "drop j str = str ! j # drop (j + 1) str"
      by (simp add: Cons_nth_drop_Suc)
    have le: "(0x30 :: byte) \<le> str ! j" using True by simp
    have u: "unat (str ! j - 0x30) = unat (str ! j) - 48"
      using le by (simp add: unat_sub)
    have c: "(ucast (str ! j - 0x30) :: uint16) = of_nat (unat (str ! j) - 48)"
      unfolding u [symmetric] by simp
    show ?thesis
    proof (intro allI impI)
      fix n assume n: "num = of_nat n"
      have "num * 10 + ucast (str ! j - 0x30) = (of_nat (n * 10 + (unat (str ! j) - 48)) :: uint16)"
        by (simp add: n c)
      with "1.IH" [OF True] have
        "parseNum str (j + 1) (num * 10 + ucast (str ! j - 0x30)) =
           of_nat (decimal (n * 10 + (unat (str ! j) - 48)) (takeWhile isDigit (drop (j + 1) str)))"
        by blast
      moreover have "parseNum str j num = parseNum str (j + 1) (num * 10 + ucast (str ! j - 0x30))"
        using True by (simp add: parseNum.simps [of str j num])
      ultimately show "parseNum str j num = of_nat (decimal n (takeWhile isDigit (drop j str)))"
        using True by (simp add: d isDigit_def)
    qed
  qed
qed

lemma parseNum_decimal_mod:
  "unat (parseNum str j 0) = decimal 0 (takeWhile isDigit (drop j str)) mod 2 ^ 16"
  using decimal_parseNum [of 0 str j, THEN spec, of 0] by (simp add: unat_of_nat)


subsection \<open>Absent and non-positive fields\<close>

text \<open>
  Claim C1, as stated: for every resize frame and every previously established geometry,
  a field that is absent or non-positive leaves that axis at its last known value;
  decoding \<open>{"cols":132}\<close> changes only the column count. The code refutes it: with the
  terminal at 40 rows and 100 columns, the frame \<open>{"cols":132}\<close> sets 24 rows, the
  initial value of the local variable \<open>rows\<close>.
\<close>

theorem handleResize_last_geometry_counterexample:
  \<open>handleResize \<lparr>winsize = \<lparr>Rows = 40, Cols = 100\<rparr>, written = [], released = False\<rparr>
      (bytes ''{"cols":132}'') =
    Inr \<lparr>winsize = \<lparr>Rows = 24, Cols = 132\<rparr>, written = [], released = False\<rparr>
   \<and> Rows \<lparr>Rows = 24, Cols = 132\<rparr> \<noteq> Rows \<lparr>Rows = 40, Cols = 100\<rparr>\<close>
  by (rule conjI, code_simp, simp)

text \<open>
  Claim C1, amended: for every resize frame on which the decoder returns, and every
  previous geometry, a field whose key does not occur in the frame, or whose every
  occurrence reads as zero, sets that axis to the hardcoded default (80 columns, 24
  rows), whatever the last known value was. Decoding \<open>{"cols":132}\<close> sets 132 columns
  and 24 rows; decoding \<open>{"cols":0,"rows":40}\<close> sets 80 columns and 40 rows.
\<close>

theorem handleResize_field_defaults:
  \<open>(handleResize p data = Inr p' \<and> list_all (\<lambda>v. v = 0) (fieldVals colsKey data)
      \<longrightarrow> Cols (winsize p') = 80) \<and>
   (handleResize p data = Inr p' \<and> list_all (\<lambda>v. v = 0) (fieldVals rowsKey data)
      \<longrightarrow> Rows (winsize p') = 24) \<and>
   handleResize p (bytes ''{"cols":132}'') = Inr (Setsize p \<lparr>Rows = 24, Cols = 132\<rparr>) \<and>
   handleResize p (bytes ''{"cols":0,"rows":40}'') = Inr (Setsize p \<lparr>Rows = 40, Cols = 80\<rparr>)\<close>
proof -
  have zero: "filter (\<lambda>v. 0 < v) vs = []" if "list_all (\<lambda>v. v = 0) vs" for vs :: "uint16 list"
    using that by (induction vs) auto
  have c: "Cols (winsize p') = 80"
    if "handleResize p data = Inr p'" "list_all (\<lambda>v. v = 0) (fieldVals colsKey data)"
    using handleResize_geometry [OF that(1)] zero [OF that(2)] by (simp add: Setsize_def)
  have r: "Rows (winsize p') = 24"
    if "handleResize p data = Inr p'" "list_all (\<lambda>v. v = 0) (fieldVals rowsKey data)"
    using handleResize_geometry [OF that(1)] zero [OF that(2)] by (simp add: Setsize_def)
  have e1: \<open>handleResize p (bytes ''{"cols":132}'') = Inr (Setsize p \<lparr>Rows = 24, Cols = 132\<rparr>)\<close>
    by code_simp
  have e2: \<open>handleResize p (bytes ''{"cols":0,"rows":40}'') =
              Inr (Setsize p \<lparr>Rows = 40, Cols = 80\<rparr>)\<close>
    by code_simp
  from c r e1 e2 show ?thesis by blast
qed

theorem handleResize_field_defaults_witness:
  \<open>handleResize \<lparr>winsize = \<lparr>Rows = 30, Cols = 100\<rparr>, written = [], released = False\<rparr>
      (bytes ''{"cols":0,"rows":40}'') =
    Inr \<lparr>winsize = \<lparr>Rows = 40, Cols = 80\<rparr>, written = [], released = False\<rparr> \<and>
   list_all (\<lambda>v. v = 0) (fieldVals colsKey (bytes ''{"cols":0,"rows":40}'')) \<and>
   Cols (winsize \<lparr>winsize = \<lparr>Rows = 40, Cols = 80\<rparr>, written = [], released = False\<rparr>) = 80 \<and>
   handleResize \<lparr>winsize = \<lparr>Rows = 30, Cols = 100\<rparr>, written = [], released = False\<rparr>
      (bytes ''{"cols":132}'') =
    Inr \<lparr>winsize = \<lparr>Rows = 24, Cols = 132\<rparr>, written = [], released = False\<rparr> \<and>
   list_all (\<lambda>v. v = 0) (fieldVals rowsKey (bytes ''{"cols":132}'')) \<and>
   Rows (winsize \<lparr>winsize = \<lparr>Rows = 24, Cols = 132\<rparr>, written = [], released = False\<rparr>) = 24\<close>
proof -
  let ?p = "\<lparr>winsize = \<lparr>Rows = 30, Cols = 100\<rparr>, written = [], released = False\<rparr>"
  let ?p1 = "\<lparr>winsize = \<lparr>Rows = 40, Cols = 80\<rparr>, written = [], released = False\<rparr>"
  let ?p2 = "\<lparr>winsize = \<lparr>Rows = 24, Cols = 132\<rparr>, written = [], released = False\<rparr>"
  have h1: \<open>handleResize ?p (bytes ''{"cols":0,"rows":40}'') = Inr ?p1\<close>
    by code_simp
  have z1: \<open>list_all (\<lambda>v. v = 0) (fieldVals colsKey (bytes ''{"cols":0,"rows":40}''))\<close>
    by code_simp
  have h2: \<open>handleResize ?p (bytes ''{"cols":132}'') = Inr ?p2\<close>
    by code_simp
  have z2: \<open>list_all (\<lambda>v. v = 0) (fieldVals rowsKey (bytes ''{"cols":132}''))\<close>
    by code_simp
  from handleResize_field_defaults [of ?p \<open>bytes ''{"cols":0,"rows":40}''\<close> ?p1] h1 z1
  have c: "Cols (winsize ?p1) = 80" by blast
  from handleResize_field_defaults [of ?p \<open>bytes ''{"cols":132}''\<close> ?p2] h2 z2
  have r: "Rows (winsize ?p2) = 24" by blast
  from h1 z1 c h2 z2 r show ?thesis by blast
qed

subsection \<open>Run-time faults\<close>

text \<open>A key that is the last or the last but one thing in a buffer of more than ten
  bytes makes the decoder panic.\<close>

lemma skipSep_past_end: "length str \<le> j \<Longrightarrow> skipSep str j = Inl IndexOutOfRange"
  by (subst skipSep.simps) (simp add: sepCond_def index_def)

lemma scanKey_trailing_key:
  assumes "int k < int (length str) - 5" and "keyAt key str k" and "length str \<le> k + 7"
  shows "scanKey str k key cur = Inl IndexOutOfRange"
  using assms by (simp add: scanKey_def slice_in_scan keyAt_def skipSep_past_end)

lemma scan_trailing_key:
  "i \<le> k \<Longrightarrow> int k < int (length str) - 5 \<Longrightarrow>
   keyAt colsKey str k \<or> keyAt rowsKey str k \<Longrightarrow> length str \<le> k + 7 \<Longrightarrow>
   \<exists>e. scan str i (cols, rows) = Inl e"
proof (induction str i "(cols, rows)" arbitrary: cols rows rule: scan.induct)
  case (1 str i cols rows)
  from "1.prems" have lt: "int i < int (length str) - 5" by simp
  show ?case
  proof (cases "scanKey str i colsKey cols")
    case (Inl e)
    with lt show ?thesis by (simp add: scan.simps [of str i])
  next
    case c: (Inr cols')
    show ?thesis
    proof (cases "scanKey str i rowsKey rows")
      case (Inl e)
      with lt c show ?thesis by (simp add: scan.simps [of str i])
    next
      case r: (Inr rows')
      have "i \<noteq> k"
        using scanKey_trailing_key [OF "1.prems"(2) _ "1.prems"(4)] "1.prems"(3) c r by auto
      with "1.prems"(1) have "i + 1 \<le> k" by simp
      from "1.hyps" [OF lt c r this "1.prems"(2,3,4)] lt c r show ?thesis
        by (simp add: scan.simps [of str i])
    qed
  qed
qed

lemma handleResize_trailing_key:
  assumes "10 < length data" and "keyAt colsKey data k \<or> keyAt rowsKey data k"
    and "length data \<le> k + 7"
  shows "\<exists>e. handleResize p data = Inl e"
proof -
  from assms(2) have "int k < int (length data) - 5" by (auto simp: keyAt_def)
  from scan_trailing_key [OF _ this assms(2,3), of 0 80 24] assms(1) show ?thesis
    by (auto simp: handleResize_def)
qed

text \<open>
  Claim C2: for every input the decoder terminates without a run-time fault, also when the
  key \<open>"cols"\<close> or \<open>"rows"\<close> matches near the end of the buffer. The functions above are
  total, so the decoder always ends; but it ends in a panic on the two inputs below. In
  the first the key is the last thing in the buffer, in the second a frame is cut after
  the colon: \<open>j = i + 7\<close> is not below \<open>len(str)\<close>, the guard \<open>j < len(str)\<close> only
  protects the comparison with the space, and \<open>str[j] == ':'\<close> reads out of range.
\<close>

theorem handleResize_index_out_of_range:
  \<open>handleResize p (bytes ''{"a":1,"cols"'') = Inl IndexOutOfRange \<and>
   handleResize p (bytes ''{"cols":80,"rows":'') = Inl IndexOutOfRange\<close>
  by (rule conjI; code_simp)

subsection \<open>Payloads without a field\<close>

text \<open>
  Claim C4, as stated: for every unparsable or malformed payload, including \<open>{}\<close>,
  decoding is a no-op that leaves the terminal size unchanged. The code refutes it: with
  the terminal at 40 rows and 100 columns, \<open>{}\<close> sets 24 rows and 80 columns.
\<close>

theorem handleResize_noop_counterexample:
  \<open>handleResize \<lparr>winsize = \<lparr>Rows = 40, Cols = 100\<rparr>, written = [], released = False\<rparr>
      (bytes ''{}'') =
    Inr \<lparr>winsize = \<lparr>Rows = 24, Cols = 80\<rparr>, written = [], released = False\<rparr>
   \<and> \<lparr>Rows = 24, Cols = 80\<rparr> \<noteq> \<lparr>Rows = 40, Cols = (100 :: uint16)\<rparr>\<close>
  by (rule conjI, code_simp, simp)

text \<open>
  Claim C4, amended: for every payload of at most ten bytes (the empty object \<open>{}\<close>
  among them) and every longer payload in which neither key occurs (arbitrary garbage
  beginning with \<open>{\<close>), decoding returns without a fault and sets the terminal size to
  the hardcoded default of 24 rows and 80 columns, whatever it was before; nothing else
  of the terminal handle changes.
\<close>

theorem handleResize_keyless_default:
  assumes "length data \<le> 10 \<or> (keyPositions colsKey data = [] \<and> keyPositions rowsKey data = [])"
  shows "handleResize p data = Inr (p\<lparr>winsize := \<lparr>Rows = 24, Cols = 80\<rparr>\<rparr>)"
proof (cases "length data \<le> 10")
  case True
  then show ?thesis by (simp add: handleResize_def Setsize_def)
next
  case False
  with assms have "scan data 0 (80, 24) = Inr (80, 24)"
    by (intro scan_no_key) (simp_all add: keyPositions_def)
  with False show ?thesis by (simp add: handleResize_def Setsize_def)
qed

theorem handleResize_keyless_default_witness:
  \<open>length (bytes ''{}'') \<le> 10 \<and>
   handleResize \<lparr>winsize = \<lparr>Rows = 40, Cols = 100\<rparr>, written = [], released = False\<rparr>
      (bytes ''{}'') =
    Inr \<lparr>winsize = \<lparr>Rows = 24, Cols = 80\<rparr>, written = [], released = False\<rparr> \<and>
   keyPositions colsKey (bytes ''{not a resize frame'') = [] \<and>
   keyPositions rowsKey (bytes ''{not a resize frame'') = [] \<and>
   handleResize \<lparr>winsize = \<lparr>Rows = 40, Cols = 100\<rparr>, written = [], released = False\<rparr>
      (bytes ''{not a resize frame'') =
    Inr \<lparr>winsize = \<lparr>Rows = 24, Cols = 80\<rparr>, written = [], released = False\<rparr>\<close>
proof -
  let ?p = "\<lparr>winsize = \<lparr>Rows = 40, Cols = 100\<rparr>, written = [], released = False\<rparr>"
  have l: \<open>length (bytes ''{}'') \<le> 10\<close> by (simp add: bytes_def)
  have k1: \<open>keyPositions colsKey (bytes ''{not a resize frame'') = []\<close> by code_simp
  have k2: \<open>keyPositions rowsKey (bytes ''{not a resize frame'') = []\<close> by code_simp
  from l have \<open>handleResize ?p (bytes ''{}'') = Inr (?p\<lparr>winsize := \<lparr>Rows = 24, Cols = 80\<rparr>\<rparr>)\<close>
    by (intro handleResize_keyless_default) blast
  moreover from k1 k2 have
    \<open>handleResize ?p (bytes ''{not a resize frame'') = Inr (?p\<lparr>winsize := \<lparr>Rows = 24, Cols = 80\<rparr>\<rparr>)\<close>
    by (intro handleResize_keyless_default) blast
  ultimately show ?thesis using l k1 k2 by simp
qed

subsection \<open>Sixteen-bit accumulation\<close>

text \<open>Where the separator loop returns, it has passed over exactly the spaces and colons;
  so the number the code reads for a key is the number written in the frame, cut to 16
  bits.\<close>

lemma skipSep_dropWhile:
  "skipSep str j = Inr j' \<Longrightarrow> drop j' str = dropWhile isSep (drop j str)"
proof (induction str j rule: skipSep.induct)
  case (1 str j)
  show ?case
  proof (cases "j < length str")
    case False
    with "1.prems" show ?thesis
      by (subst (asm) skipSep.simps) (simp add: sepCond_def index_def)
  next
    case True
    then have d: "drop j str = str ! j # drop (j + 1) str"
      by (simp add: Cons_nth_drop_Suc)
    from True have sc: "sepCond str j = Inr (isSep (str ! j))"
      by (auto simp: sepCond_def index_def isSep_def)
    show ?thesis
    proof (cases "isSep (str ! j)")
      case sep: True
      with sc "1.prems" have "skipSep str (j + 1) = Inr j'"
        by (subst (asm) skipSep.simps) simp
      from "1.IH" [OF sc sep this] sep show ?thesis by (simp add: d)
    next
      case nosep: False
      with sc "1.prems" have "j' = j"
        by (subst (asm) skipSep.simps) simp
      with nosep show ?thesis by (simp add: d)
    qed
  qed
qed

lemma parseNum_fieldDecimal:
  assumes "skipSep str (i + 7) = Inr j"
  shows "parseNum str j 0 = word_of_nat (fieldDecimal str i)"
  using decimal_parseNum [of 0 str j, THEN spec, of 0] skipSep_dropWhile [OF assms]
  by (simp add: fieldDecimal_def fieldDigits_def)

lemma scanKey_decimal:
  assumes "int i < int (length str) - 5" and "scanKey str i key cur = Inr c"
  shows "c = (if keyAt key str i \<and> 0 < (word_of_nat (fieldDecimal str i) :: uint16)
              then word_of_nat (fieldDecimal str i) else cur)"
proof (cases "keyAt key str i")
  case False
  with assms show ?thesis by (simp add: scanKey_no_key)
next
  case True
  with assms obtain j where j: "skipSep str (i + 7) = Inr j"
    by (auto simp: scanKey_def slice_in_scan keyAt_def split: sum.splits)
  from assms True j show ?thesis
    by (auto simp: scanKey_def slice_in_scan keyAt_def Let_def parseNum_fieldDecimal [OF j]
             split: if_splits)
qed

lemma scan_decimal:
  "scan str i (cols, rows) = Inr (c, r) \<Longrightarrow>
   c = last (cols # filter (\<lambda>v. 0 < v)
         (map (\<lambda>k. word_of_nat (fieldDecimal str k)) (keyPositionsFrom colsKey str i))) \<and>
   r = last (rows # filter (\<lambda>v. 0 < v)
         (map (\<lambda>k. word_of_nat (fieldDecimal str k)) (keyPositionsFrom rowsKey str i)))"
proof (induction str i "(cols, rows)" arbitrary: cols rows rule: scan.induct)
  case (1 str i cols rows)
  show ?case
  proof (cases "int i < int (length str) - 5")
    case False
    with "1.prems" show ?thesis by (simp add: scan.simps [of str i] keyPositionsFrom_end)
  next
    case True
    from True "1.prems" obtain c1 r1 where
      k1: "scanKey str i colsKey cols = Inr c1" and
      k2: "scanKey str i rowsKey rows = Inr r1" and
      rest: "scan str (i + 1) (c1, r1) = Inr (c, r)"
      by (auto simp: scan.simps [of str i] split: sum.splits)
    note ih = "1.hyps" [OF True k1 k2 rest]
    note c1 = scanKey_decimal [OF True k1]
    note r1 = scanKey_decimal [OF True k2]
    show ?thesis
      using ih c1 r1 by (simp add: keyPositionsFrom_step [OF True])
  qed
qed

lemma unat_last_positive:
  "unat (last (c # filter (\<lambda>v. 0 < v) (map word_of_nat ns)) :: uint16) =
   last (unat c # filter (\<lambda>v. 0 < v) (map (\<lambda>n. n mod 2 ^ 16) ns))"
proof (induction ns arbitrary: c)
  case Nil
  then show ?case by simp
next
  case (Cons n ns)
  have pos: "(0 < (word_of_nat n :: uint16)) = (0 < n mod 2 ^ 16)"
    by (simp add: word_greater_zero_iff unat_of_nat unat_eq_0 [symmetric] del: unat_eq_0)
  have val: "unat (word_of_nat n :: uint16) = n mod 2 ^ 16"
    by (simp add: unat_of_nat)
  show ?case
  proof (cases "0 < n mod (2::nat) ^ 16")
    case True
    with pos Cons.IH [of "word_of_nat n"] val show ?thesis by simp
  next
    case False
    with pos Cons.IH [of c] show ?thesis by simp
  qed
qed

lemma handleResize_decimal:
  assumes "handleResize p data = Inr p'" and "10 < length data"
  shows "unat (Cols (winsize p')) =
           last (80 # filter (\<lambda>v. 0 < v)
                  (map (\<lambda>k. fieldDecimal data k mod 2 ^ 16) (keyPositions colsKey data)))"
    and "unat (Rows (winsize p')) =
           last (24 # filter (\<lambda>v. 0 < v)
                  (map (\<lambda>k. fieldDecimal data k mod 2 ^ 16) (keyPositions rowsKey data)))"
    and "written p' = written p" and "released p' = released p"
proof -
  from assms obtain c r where sc: "scan data 0 (80, 24) = Inr (c, r)"
    and p: "p' = Setsize p \<lparr>Rows = r, Cols = c\<rparr>"
    by (auto simp: handleResize_def split: sum.splits)
  from scan_decimal [OF sc] have
    c: "c = last (80 # filter (\<lambda>v. 0 < v)
          (map word_of_nat (map (fieldDecimal data) (keyPositions colsKey data))))" and
    r: "r = last (24 # filter (\<lambda>v. 0 < v)
          (map word_of_nat (map (fieldDecimal data) (keyPositions rowsKey data))))"
    by (simp_all add: keyPositions_def comp_def)
  show "unat (Cols (winsize p')) =
           last (80 # filter (\<lambda>v. 0 < v)
                  (map (\<lambda>k. fieldDecimal data k mod 2 ^ 16) (keyPositions colsKey data)))"
    using unat_last_positive [of 80 "map (fieldDecimal data) (keyPositions colsKey data)"]
    by (simp add: p c Setsize_def comp_def)
  show "unat (Rows (winsize p')) =
           last (24 # filter (\<lambda>v. 0 < v)
                  (map (\<lambda>k. fieldDecimal data k mod 2 ^ 16) (keyPositions rowsKey data)))"
    using unat_last_positive [of 24 "map (fieldDecimal data) (keyPositions rowsKey data)"]
    by (simp add: p r Setsize_def comp_def)
  show "written p' = written p" "released p' = released p"
    by (simp_all add: p Setsize_def)
qed

text \<open>
  Claim C9: the decoder accumulates each run of ASCII digits in a 16-bit unsigned
  integer, so any numeric field value is interpreted modulo \<open>2^16\<close>. For every frame of
  more than ten bytes on which the decoder returns, the columns set on the terminal are
  the last of the numbers written after a \<open>"cols"\<close> key whose value modulo \<open>2^16\<close> is
  positive, taken modulo \<open>2^16\<close>, and 80 when there is none; likewise the rows, with 24.
  The digit loop alone returns the decimal value of the run modulo \<open>2^16\<close>. In
  \<open>{"cols":65536}\<close> the digits read as 0, the assignment to \<open>cols\<close> is skipped as for any
  non-positive field, and the terminal gets the 80 columns the variable already held, not
  65536; \<open>{"cols":65537}\<close> sets 1 column; \<open>{"cols":65616,"rows":65576}\<close> sets 80 columns
  and 40 rows.
\<close>

theorem handleResize_fields_mod_2_16:
  \<open>(handleResize p data = Inr p' \<and> 10 < length data \<longrightarrow>
      unat (Cols (winsize p')) =
        last (80 # filter (\<lambda>v. 0 < v)
                (map (\<lambda>k. fieldDecimal data k mod 2 ^ 16) (keyPositions colsKey data))) \<and>
      unat (Rows (winsize p')) =
        last (24 # filter (\<lambda>v. 0 < v)
                (map (\<lambda>k. fieldDecimal data k mod 2 ^ 16) (keyPositions rowsKey data)))) \<and>
   unat (parseNum str j 0) = decimal 0 (takeWhile isDigit (drop j str)) mod 2 ^ 16 \<and>
   takeWhile isDigit (drop 8 (bytes ''{"cols":65536}'')) = bytes ''65536'' \<and>
   decimal 0 (bytes ''65536'') = 65536 \<and>
   parseNum (bytes ''{"cols":65536}'') 8 0 = 0 \<and>
   scanKey (bytes ''{"cols":65536}'') 1 colsKey cur = Inr cur \<and>
   handleResize p (bytes ''{"cols":65536}'') = Inr (Setsize p \<lparr>Rows = 24, Cols = 80\<rparr>) \<and>
   handleResize p (bytes ''{"cols":65537}'') = Inr (Setsize p \<lparr>Rows = 24, Cols = 1\<rparr>) \<and>
   handleResize p (bytes ''{"cols":65616,"rows":65576}'') =
     Inr (Setsize p \<lparr>Rows = 40, Cols = 80\<rparr>)\<close>
proof -
  have g: "unat (Cols (winsize p')) =
        last (80 # filter (\<lambda>v. 0 < v)
                (map (\<lambda>k. fieldDecimal data k mod 2 ^ 16) (keyPositions colsKey data))) \<and>
      unat (Rows (winsize p')) =
        last (24 # filter (\<lambda>v. 0 < v)
                (map (\<lambda>k. fieldDecimal data k mod 2 ^ 16) (keyPositions rowsKey data)))"
    if "handleResize p data = Inr p'" "10 < length data"
    using handleResize_decimal(1,2) [OF that] by blast
  have a: \<open>takeWhile isDigit (drop 8 (bytes ''{"cols":65536}'')) = bytes ''65536''\<close>
    by code_simp
  have b: \<open>decimal 0 (bytes ''65536'') = 65536\<close>
    by (simp add: bytes_def)
  have c: \<open>parseNum (bytes ''{"cols":65536}'') 8 0 = 0\<close>
    by code_simp
  have d: \<open>scanKey (bytes ''{"cols":65536}'') 1 colsKey cur = Inr cur\<close>
    by code_simp
  have e: \<open>handleResize p (bytes ''{"cols":65536}'') = Inr (Setsize p \<lparr>Rows = 24, Cols = 80\<rparr>)\<close>
    by code_simp
  have f: \<open>handleResize p (bytes ''{"cols":65537}'') = Inr (Setsize p \<lparr>Rows = 24, Cols = 1\<rparr>)\<close>
    by (code_simp; simp)
  have h: \<open>handleResize p (bytes ''{"cols":65616,"rows":65576}'') =
              Inr (Setsize p \<lparr>Rows = 40, Cols = 80\<rparr>)\<close>
    by (code_simp; simp)
  from g parseNum_decimal_mod [of str j] a b c d e f h show ?thesis by blast
qed

theorem handleResize_fields_mod_2_16_witness:
  \<open>handleResize \<lparr>winsize = \<lparr>Rows = 30, Cols = 100\<rparr>, written = [], released = False\<rparr>
      (bytes ''{"cols":65537,"rows":65576}'') =
     Inr \<lparr>winsize = \<lparr>Rows = 40, Cols = 1\<rparr>, written = [], released = False\<rparr> \<and>
   10 < length (bytes ''{"cols":65537,"rows":65576}'') \<and>
   keyPositions colsKey (bytes ''{"cols":65537,"rows":65576}'') = [1] \<and>
   keyPositions rowsKey (bytes ''{"cols":65537,"rows":65576}'') = [14] \<and>
   fieldDecimal (bytes ''{"cols":65537,"rows":65576}'') 1 = 65537 \<and>
   fieldDecimal (bytes ''{"cols":65537,"rows":65576}'') 14 = 65576 \<and>
   unat (Cols (winsize \<lparr>winsize = \<lparr>Rows = 40, Cols = 1\<rparr>, written = [], released = False\<rparr>)) =
     65537 mod 2 ^ 16 \<and>
   unat (Rows (winsize \<lparr>winsize = \<lparr>Rows = 40, Cols = 1\<rparr>, written = [], released = False\<rparr>)) =
     65576 mod 2 ^ 16\<close>
proof -
  let ?p = "\<lparr>winsize = \<lparr>Rows = 30, Cols = 100\<rparr>, written = [], released = False\<rparr>"
  let ?p' = "\<lparr>winsize = \<lparr>Rows = 40, Cols = 1\<rparr>, written = [], released = False\<rparr>"
  let ?d = \<open>bytes ''{"cols":65537,"rows":65576}''\<close>
  have r: "handleResize ?p ?d = Inr ?p'" by (code_simp; simp)
  have l: "10 < length ?d" by (simp add: bytes_def)
  have kc: "keyPositions colsKey ?d = [1]" by code_simp
  have kr: "keyPositions rowsKey ?d = [14]" by code_simp
  have dc: \<open>fieldDigits ?d 1 = bytes ''65537''\<close> by code_simp
  have dr: \<open>fieldDigits ?d 14 = bytes ''65576''\<close> by code_simp
  have fc: "fieldDecimal ?d 1 = 65537"
    unfolding fieldDecimal_def dc by (simp add: bytes_def)
  have fr: "fieldDecimal ?d 14 = 65576"
    unfolding fieldDecimal_def dr by (simp add: bytes_def)
  from handleResize_fields_mod_2_16 [of ?p ?d ?p'] r l
  have "unat (Cols (winsize ?p')) =
        last (80 # filter (\<lambda>v. 0 < v) (map (\<lambda>k. fieldDecimal ?d k mod 2 ^ 16) (keyPositions colsKey ?d)))"
    and "unat (Rows (winsize ?p')) =
        last (24 # filter (\<lambda>v. 0 < v) (map (\<lambda>k. fieldDecimal ?d k mod 2 ^ 16) (keyPositions rowsKey ?d)))"
    by blast+
  then have "unat (Cols (winsize ?p')) = 65537 mod 2 ^ 16"
    and "unat (Rows (winsize ?p')) = 65576 mod 2 ^ 16"
    by (simp_all only: kc kr fc fr) simp_all
  with r l kc kr fc fr show ?thesis by blast
qed

section \<open>Properties of the session\<close>

subsection \<open>What reaches the terminal\<close>

lemma handleResize_written:
  "handleResize p data = Inr p' \<Longrightarrow> written p' = written p \<and> released p' = released p"
  by (auto simp: handleResize_def Setsize_def split: sum.splits)

lemma mainStep_written:
  assumes "mainStep e s = Some s'" and "mainPc s = M_Start \<longrightarrow> ptmx s = None"
    and "ptmx s = None \<longrightarrow> inPc s = B_NotStarted"
  shows "ptyWritten s' = ptyWritten s \<and> mainPc s' \<noteq> M_Start \<and> forwardedBy e = [] \<and>
         (ptmx s' = None \<longrightarrow> inPc s' = B_NotStarted)"
proof (cases e)
  case (PtyStart r)
  with assms show ?thesis
    by (cases r)
       (auto simp: ptyWritten_def wsClose_def wsWrite_def logPrintf_def Setsize_def freshPty_def
             split: if_splits)
next
  case (CmdWait r)
  with assms show ?thesis
    by (auto simp: ptyWritten_def logPrintf_def split: if_splits option.splits)
next
  case MainStep
  with assms show ?thesis
    by (auto simp: ptyWritten_def wsClose_def ptmxClose_def
             split: if_splits option.splits main_pc.splits)
qed (use assms in auto)

lemma outStep_written:
  assumes "outStep e s = Some s'"
  shows "ptyWritten s' = ptyWritten s \<and> mainPc s' = mainPc s \<and> ptmx s' = ptmx s \<and>
         inPc s' = inPc s \<and> forwardedBy e = []"
proof (cases e)
  case Select
  with assms show ?thesis by (auto simp: ptyWritten_def wgDone_def split: if_splits)
next
  case (PtyRead b r)
  with assms show ?thesis
    by (auto simp: ptyWritten_def wgDone_def wsWrite_def logUnlessEOF_def logPrintf_def
             split: if_splits option.splits)
next
  case (WsWrite r)
  with assms show ?thesis
    by (auto simp: ptyWritten_def wgDone_def logPrintf_def split: if_splits option.splits)
qed (use assms in auto)

lemma inStep_written:
  assumes "inStep e s = Some s'" and "ptmx s = None \<longrightarrow> inPc s = B_NotStarted"
  shows "ptyWritten s' = ptyWritten s @ forwardedBy e \<and> mainPc s' = mainPc s \<and>
         ptmx s \<noteq> None \<and> ptmx s' \<noteq> None"
proof (cases e)
  case (WsRead chunk r)
  show ?thesis
  proof (cases r)
    case (Some err)
    with WsRead assms show ?thesis
      by (auto simp: ptyWritten_def logUnlessEOF_def logPrintf_def split: if_splits)
  next
    case None
    show ?thesis
    proof (cases "chunk = []")
      case True
      with None WsRead assms show ?thesis by (auto split: if_splits)
    next
      case False
      then have hd: "chunk ! 0 = hd chunk" by (simp add: hd_conv_nth)
      show ?thesis
      proof (cases "hd chunk = 0x7B")
        case True
        with False hd None WsRead assms show ?thesis
          by (auto simp: ptyWritten_def wgDone_def dest: handleResize_written
                   split: if_splits option.splits sum.splits)
      next
        case nb: False
        with False hd None WsRead assms show ?thesis
          by (auto simp: ptyWritten_def ptmxWrite_def split: if_splits option.splits)
      qed
    qed
  qed
next
  case InStep
  with assms show ?thesis
    by (auto simp: ptyWritten_def wgDone_def split: if_splits in_pc.splits)
next
  case (PtyWrite r)
  with assms show ?thesis
    by (auto simp: ptyWritten_def wgDone_def logPrintf_def split: if_splits option.splits)
qed (use assms in auto)

lemma threadStep_thread:
  "threadStep e s = Some s' \<Longrightarrow>
   mainStep e s = Some s' \<or> outStep e s = Some s' \<or> inStep e s = Some s'"
  by (cases e) simp_all

lemma step_written:
  assumes "step e s = Some s'" and "mainPc s = M_Start \<longrightarrow> ptmx s = None"
    and "ptmx s = None \<longrightarrow> inPc s = B_NotStarted"
  shows "ptyWritten s' = ptyWritten s @ forwardedBy e \<and>
         (mainPc s' = M_Start \<longrightarrow> ptmx s' = None) \<and>
         (ptmx s' = None \<longrightarrow> inPc s' = B_NotStarted)"
proof -
  from assms(1) have "threadStep e s = Some s'"
    by (simp add: step_def split: if_splits)
  then consider (main) "mainStep e s = Some s'" | (out) "outStep e s = Some s'"
    | (inn) "inStep e s = Some s'"
    using threadStep_thread by blast
  then show ?thesis
  proof cases
    case main
    from mainStep_written [OF this assms(2,3)] show ?thesis by auto
  next
    case out
    from outStep_written [OF this] assms(2,3) show ?thesis by auto
  next
    case inn
    from inStep_written [OF this assms(3)] assms(2) show ?thesis by auto
  qed
qed

lemma run_written:
  "run es s0 = Some s \<Longrightarrow> (mainPc s0 = M_Start \<longrightarrow> ptmx s0 = None) \<Longrightarrow>
   (ptmx s0 = None \<longrightarrow> inPc s0 = B_NotStarted) \<Longrightarrow>
   ptyWritten s = ptyWritten s0 @ forwarded es"
proof (induction es arbitrary: s0)
  case Nil
  then show ?case by (simp add: forwarded_def)
next
  case (Cons e es)
  from Cons.prems(1) obtain s1 where st: "step e s0 = Some s1" and r: "run es s1 = Some s"
    by (auto split: option.splits)
  from step_written [OF st Cons.prems(2,3)] Cons.IH [OF r] show ?case
    by (simp add: forwarded_def)
qed


text \<open>
  Claim C5: no byte of an inbound chunk whose first byte is \<open>{\<close> is ever written to the
  terminal handle, whether or not the chunk parses as a resize message; every other
  non-empty chunk is written verbatim. In every execution of the session the chunks
  passed to \<open>ptmx.Write\<close> are exactly the non-empty chunks read from the websocket that
  do not begin with \<open>{\<close>, unchanged and in the order read.
\<close>

theorem only_data_chunks_reach_pty:
  assumes "run es init = Some s"
  shows "ptyWritten s = forwarded es"
  using run_written [OF assms] by (simp add: init_def ptyWritten_def)

theorem only_data_chunks_reach_pty_witness:
  \<open>run [PtyStart None, WsRead (bytes ''ls'') None, PtyWrite None,
        WsRead (bytes ''{"cols":100,"rows":40}'') None, WsRead (bytes ''{garbage'') None,
        WsRead (bytes ''pwd'') None] init =
     Some \<lparr>mainPc = M_Wait, outPc = A_Select, inPc = B_Write,
            ws = \<lparr>sent = [], closed = False\<rparr>,
            ptmx = Some \<lparr>winsize = \<lparr>Rows = 24, Cols = 80\<rparr>,
                          written = [bytes ''ls'', bytes ''pwd''], released = False\<rparr>,
            doneClosed = False, wg = 2, interrupts = 0, logged = []\<rparr> \<and>
   forwarded [PtyStart None, WsRead (bytes ''ls'') None, PtyWrite None,
        WsRead (bytes ''{"cols":100,"rows":40}'') None, WsRead (bytes ''{garbage'') None,
        WsRead (bytes ''pwd'') None] = [bytes ''ls'', bytes ''pwd'']\<close>
proof -
  let ?es = \<open>[PtyStart None, WsRead (bytes ''ls'') None, PtyWrite None,
        WsRead (bytes ''{"cols":100,"rows":40}'') None, WsRead (bytes ''{garbage'') None,
        WsRead (bytes ''pwd'') None]\<close>
  let ?s = \<open>\<lparr>mainPc = M_Wait, outPc = A_Select, inPc = B_Write,
            ws = \<lparr>sent = [], closed = False\<rparr>,
            ptmx = Some \<lparr>winsize = \<lparr>Rows = 24, Cols = 80\<rparr>,
                          written = [bytes ''ls'', bytes ''pwd''], released = False\<rparr>,
            doneClosed = False, wg = 2, interrupts = 0, logged = []\<rparr>\<close>
  have r: "run ?es init = Some ?s" by code_simp
  from only_data_chunks_reach_pty [OF r] have "forwarded ?es = [bytes ''ls'', bytes ''pwd'']"
    by (simp add: ptyWritten_def)
  with r show ?thesis by blast
qed

subsection \<open>Failure to start the terminal\<close>

text \<open>
  Claim C8: if acquiring the terminal handle fails, \<open>runTerminalSession\<close> writes a
  human-readable diagnostic line to the transport, closes the transport, and returns
  without starting either stream loop and without touching the geometry. From the initial
  state the failed \<open>pty.Start\<close> leaves one line \<open>Failed to start terminal: \<close>, the error
  text, and \<open>\\r\\n\<close> in the websocket, the websocket closed, the function returned, both
  goroutines not started and no terminal; no further step of any thread is possible.
\<close>

theorem start_failure_closes_transport:
  \<open>step (PtyStart (Some msg)) init =
     Some \<lparr>mainPc = M_Returned, outPc = A_NotStarted, inPc = B_NotStarted,
            ws = \<lparr>sent = [startFailedLine msg], closed = True\<rparr>, ptmx = None,
            doneClosed = False, wg = 0, interrupts = 0, logged = [StartFailed msg]\<rparr> \<and>
   startFailedLine msg = bytes ''Failed to start terminal: '' @ bytes msg @ [0x0D, 0x0A] \<and>
   (\<forall>e. step e \<lparr>mainPc = M_Returned, outPc = A_NotStarted, inPc = B_NotStarted,
            ws = \<lparr>sent = [startFailedLine msg], closed = True\<rparr>, ptmx = None,
            doneClosed = False, wg = 0, interrupts = 0, logged = [StartFailed msg]\<rparr> = None)\<close>
proof -
  let ?t = "\<lparr>mainPc = M_Returned, outPc = A_NotStarted, inPc = B_NotStarted,
            ws = \<lparr>sent = [startFailedLine msg], closed = True\<rparr>, ptmx = None,
            doneClosed = False, wg = 0, interrupts = 0, logged = [StartFailed msg]\<rparr>"
  have a: "step (PtyStart (Some msg)) init = Some ?t"
    by (simp add: step_def crashed_def init_def wsClose_def wsWrite_def logPrintf_def)
  have b: "startFailedLine msg = bytes ''Failed to start terminal: '' @ bytes msg @ [0x0D, 0x0A]"
    by (simp add: startFailedLine_def bytes_def)
  have c: "step e ?t = None" for e
  proof (cases e)
    case (PtyStart r)
    then show ?thesis by (cases r) (simp_all add: step_def crashed_def)
  qed (simp_all add: step_def crashed_def)
  from a b c show ?thesis by blast
qed

subsection \<open>A failed websocket write\<close>

text \<open>
  Claim C10: when a write to the transport fails in the device-to-transport loop, the
  loop logs and exits without setting the termination signal and without requesting
  process interruption; the signal and the process are left unchanged by this exit path.
\<close>

theorem ws_write_error_leaves_signal:
  assumes "outPc s = A_Write" and "\<not> crashed s"
  shows "\<exists>s'. step (WsWrite (Some err)) s = Some s' \<and> outPc s' = A_Exited \<and>
              logged s' = logged s @ [WsWriteError err] \<and>
              doneClosed s' = doneClosed s \<and> interrupts s' = interrupts s \<and>
              mainPc s' = mainPc s \<and> inPc s' = inPc s \<and> ws s' = ws s \<and> ptmx s' = ptmx s"
  using assms by (simp add: step_def wgDone_def logPrintf_def)

theorem ws_write_error_leaves_signal_witness:
  \<open>run [PtyStart None, Select, PtyRead (bytes ''$ '') None] init =
     Some \<lparr>mainPc = M_Wait, outPc = A_Write, inPc = B_Read,
            ws = \<lparr>sent = [bytes ''$ ''], closed = False\<rparr>,
            ptmx = Some \<lparr>winsize = \<lparr>Rows = 24, Cols = 80\<rparr>, written = [], released = False\<rparr>,
            doneClosed = False, wg = 2, interrupts = 0, logged = []\<rparr> \<and>
   step (WsWrite (Some (Failure ''broken pipe'')))
        \<lparr>mainPc = M_Wait, outPc = A_Write, inPc = B_Read,
            ws = \<lparr>sent = [bytes ''$ ''], closed = False\<rparr>,
            ptmx = Some \<lparr>winsize = \<lparr>Rows = 24, Cols = 80\<rparr>, written = [], released = False\<rparr>,
            doneClosed = False, wg = 2, interrupts = 0, logged = []\<rparr> =
     Some \<lparr>mainPc = M_Wait, outPc = A_Exited, inPc = B_Read,
            ws = \<lparr>sent = [bytes ''$ ''], closed = False\<rparr>,
            ptmx = Some \<lparr>winsize = \<lparr>Rows = 24, Cols = 80\<rparr>, written = [], released = False\<rparr>,
            doneClosed = False, wg = 1, interrupts = 0,
            logged = [WsWriteError (Failure ''broken pipe'')]\<rparr>\<close>
proof -
  let ?s = \<open>\<lparr>mainPc = M_Wait, outPc = A_Write, inPc = B_Read,
            ws = \<lparr>sent = [bytes ''$ ''], closed = False\<rparr>,
            ptmx = Some \<lparr>winsize = \<lparr>Rows = 24, Cols = 80\<rparr>, written = [], released = False\<rparr>,
            doneClosed = False, wg = 2, interrupts = 0, logged = []\<rparr>\<close>
  have r: \<open>run [PtyStart None, Select, PtyRead (bytes ''$ '') None] init = Some ?s\<close>
    by code_simp
  have p: "outPc ?s = A_Write" by simp
  have c: "\<not> crashed ?s" by (simp add: crashed_def)
  from ws_write_error_leaves_signal [OF p c, of \<open>Failure ''broken pipe''\<close>]
  obtain s' where st: \<open>step (WsWrite (Some (Failure ''broken pipe''))) ?s = Some s'\<close>
    and "outPc s' = A_Exited" and \<open>logged s' = logged ?s @ [WsWriteError (Failure ''broken pipe'')]\<close>
    and "doneClosed s' = doneClosed ?s" and "interrupts s' = interrupts ?s"
    by blast
  have \<open>step (WsWrite (Some (Failure ''broken pipe''))) ?s =
     Some \<lparr>mainPc = M_Wait, outPc = A_Exited, inPc = B_Read,
            ws = \<lparr>sent = [bytes ''$ ''], closed = False\<rparr>,
            ptmx = Some \<lparr>winsize = \<lparr>Rows = 24, Cols = 80\<rparr>, written = [], released = False\<rparr>,
            doneClosed = False, wg = 1, interrupts = 0,
            logged = [WsWriteError (Failure ''broken pipe'')]\<rparr>\<close>
    using st by (simp add: step_def crashed_def wgDone_def logPrintf_def)
  with r show ?thesis by blast
qed

subsection \<open>Closing \<open>done\<close> twice\<close>

text \<open>
  While \<open>done\<close> is still open, a read error on the websocket takes the
  transport-to-device loop through \<open>close(done)\<close> and \<open>cmd.Process.Signal\<close> to its
  return.
\<close>

lemma read_error_path:
  assumes "inPc s = B_Read" and "\<not> doneClosed s"
  shows "run [WsRead chunk (Some err), InStep, InStep] s =
           Some ((logUnlessEOF WsReadError err s)
                   \<lparr>doneClosed := True, interrupts := interrupts s + 1, wg := wg s - 1,
                    inPc := B_Exited\<rparr>)"
  using assms by (simp add: step_def crashed_def wgDone_def logUnlessEOF_def logPrintf_def)


text \<open>
  Claim C3: the termination signal is set at most once, and the shutdown coordinator's
  setting of it after process exit is idempotent and safe even when the
  transport-to-device loop has already set it on a read error; no execution fails
  because the signal is set a second time. The code sets the signal with \<open>close(done)\<close>
  in both places, and closing a closed channel panics. In the execution below the
  websocket read returns end-of-stream, the loop closes \<open>done\<close>, interrupts the process
  and returns, the process exits, and the \<open>close(done)\<close> of the function body panics.
\<close>

theorem close_done_after_read_error_panics:
  \<open>run [PtyStart None, WsRead [] (Some EOF), InStep, InStep, CmdWait None, MainStep] init =
     Some \<lparr>mainPc = M_Deferred (Some CloseOfClosedChannel), outPc = A_Select, inPc = B_Exited,
            ws = \<lparr>sent = [], closed = False\<rparr>,
            ptmx = Some \<lparr>winsize = \<lparr>Rows = 24, Cols = 80\<rparr>, written = [], released = False\<rparr>,
            doneClosed = True, wg = 1, interrupts = 1, logged = []\<rparr>\<close>
  by code_simp


text \<open>
  Claim C7: on every transport read error the transport-to-device loop sets the
  termination signal, requests interruption of the spawned process, and exits. In the
  execution below the process exits first, the function body closes \<open>done\<close> and the
  websocket, the pending \<open>ws.Read\<close> of the loop returns an error, and the loop's
  \<open>close(done)\<close> panics: no interrupt is requested and the program ends.
\<close>

theorem read_error_after_shutdown_panics:
  \<open>run [PtyStart None, CmdWait None, MainStep, MainStep,
        WsRead [] (Some (Failure ''use of closed network connection'')), InStep] init =
     Some \<lparr>mainPc = M_WgWait, outPc = A_Select, inPc = B_Panicked CloseOfClosedChannel,
            ws = \<lparr>sent = [], closed = True\<rparr>,
            ptmx = Some \<lparr>winsize = \<lparr>Rows = 24, Cols = 80\<rparr>, written = [], released = False\<rparr>,
            doneClosed = True, wg = 1, interrupts = 0,
            logged = [WsReadError (Failure ''use of closed network connection'')]\<rparr>\<close>
  by code_simp

subsection \<open>Order of the shutdown\<close>

lemma mainStep_shutdownInv:
  assumes "mainStep e s = Some s'" and "shutdownInv s"
  shows "shutdownInv s'"
proof (cases e)
  case (PtyStart r)
  with assms show ?thesis
    by (cases r)
       (auto simp: shutdownInv_def loopsRunning_def wsClose_def wsWrite_def logPrintf_def
             split: if_splits)
next
  case (CmdWait r)
  with assms show ?thesis
    by (cases r)
       (auto simp: shutdownInv_def loopsRunning_def logPrintf_def split: if_splits)
next
  case MainStep
  with assms show ?thesis
    by (cases "mainPc s")
       (auto simp: shutdownInv_def loopsRunning_def wsClose_def ptmxClose_def
             split: if_splits option.splits)
qed (use assms in auto)

lemma outStep_shutdownInv:
  assumes "outStep e s = Some s'" and "shutdownInv s"
  shows "shutdownInv s'"
proof (cases e)
  case Select
  with assms show ?thesis
    by (auto simp: shutdownInv_def loopsRunning_def wgDone_def split: if_splits)
next
  case (PtyRead b r)
  with assms show ?thesis
    by (cases r)
       (auto simp: shutdownInv_def loopsRunning_def wgDone_def wsWrite_def logUnlessEOF_def
                   logPrintf_def split: if_splits)
next
  case (WsWrite r)
  with assms show ?thesis
    by (cases r)
       (auto simp: shutdownInv_def loopsRunning_def wgDone_def logPrintf_def split: if_splits)
qed (use assms in auto)

lemma inStep_shutdownInv:
  assumes "inStep e s = Some s'" and "shutdownInv s"
  shows "shutdownInv s'"
proof (cases e)
  case (WsRead chunk r)
  with assms show ?thesis
    by (cases r)
       (auto simp: shutdownInv_def loopsRunning_def wgDone_def ptmxWrite_def logUnlessEOF_def
                   logPrintf_def split: if_splits option.splits sum.splits)
next
  case InStep
  with assms show ?thesis
    by (cases "inPc s")
       (auto simp: shutdownInv_def loopsRunning_def wgDone_def split: if_splits)
next
  case (PtyWrite r)
  with assms show ?thesis
    by (cases r)
       (auto simp: shutdownInv_def loopsRunning_def wgDone_def logPrintf_def split: if_splits)
qed (use assms in auto)

lemma run_shutdownInv:
  "run es s0 = Some s \<Longrightarrow> shutdownInv s0 \<Longrightarrow> shutdownInv s"
proof (induction es arbitrary: s0)
  case Nil
  then show ?case by simp
next
  case (Cons e es)
  from Cons.prems(1) obtain s1 where st: "step e s0 = Some s1" and r: "run es s1 = Some s"
    by (auto split: option.splits)
  from st have "threadStep e s0 = Some s1"
    by (simp add: step_def split: if_splits)
  with Cons.prems(2) have "shutdownInv s1"
    using threadStep_thread mainStep_shutdownInv outStep_shutdownInv inStep_shutdownInv
    by blast
  with Cons.IH [OF r] show ?case .
qed

lemma mainStep_released:
  assumes "mainStep e s = Some s'"
    and "ptyReleased s \<longrightarrow> mainPc s = M_Returned \<or> (\<exists>q. mainPc s = M_Panicked q)"
  shows "ptyReleased s' \<longrightarrow> mainPc s' = M_Returned \<or> (\<exists>q. mainPc s' = M_Panicked q)"
proof (cases e)
  case (PtyStart r)
  with assms show ?thesis
    by (cases r)
       (auto simp: ptyReleased_def wsClose_def wsWrite_def logPrintf_def Setsize_def freshPty_def
             split: if_splits)
next
  case (CmdWait r)
  with assms show ?thesis
    by (cases r) (auto simp: ptyReleased_def logPrintf_def split: if_splits)
next
  case MainStep
  with assms show ?thesis
    by (cases "mainPc s")
       (auto simp: ptyReleased_def wsClose_def ptmxClose_def split: if_splits option.splits)
qed (use assms in auto)

lemma outStep_released:
  assumes "outStep e s = Some s'"
  shows "ptyReleased s' = ptyReleased s \<and> mainPc s' = mainPc s"
proof (cases e)
  case Select
  with assms show ?thesis by (auto simp: ptyReleased_def wgDone_def split: if_splits)
next
  case (PtyRead b r)
  with assms show ?thesis
    by (cases r)
       (auto simp: ptyReleased_def wgDone_def wsWrite_def logUnlessEOF_def logPrintf_def
             split: if_splits)
next
  case (WsWrite r)
  with assms show ?thesis
    by (cases r) (auto simp: ptyReleased_def wgDone_def logPrintf_def split: if_splits)
qed (use assms in auto)

lemma inStep_released:
  assumes "inStep e s = Some s'"
  shows "ptyReleased s' = ptyReleased s \<and> mainPc s' = mainPc s"
proof (cases e)
  case (WsRead chunk r)
  with assms show ?thesis
    by (cases r)
       (auto simp: ptyReleased_def wgDone_def ptmxWrite_def logUnlessEOF_def logPrintf_def
             dest: handleResize_written split: if_splits option.splits sum.splits)
next
  case InStep
  with assms show ?thesis
    by (cases "inPc s") (auto simp: ptyReleased_def wgDone_def split: if_splits)
next
  case (PtyWrite r)
  with assms show ?thesis
    by (cases r) (auto simp: ptyReleased_def wgDone_def logPrintf_def split: if_splits)
qed (use assms in auto)

lemma run_released:
  "run es s0 = Some s \<Longrightarrow>
   (ptyReleased s0 \<longrightarrow> mainPc s0 = M_Returned \<or> (\<exists>q. mainPc s0 = M_Panicked q)) \<Longrightarrow>
   (ptyReleased s \<longrightarrow> mainPc s = M_Returned \<or> (\<exists>q. mainPc s = M_Panicked q))"
proof (induction es arbitrary: s0)
  case Nil
  then show ?case by simp
next
  case (Cons e es)
  from Cons.prems(1) obtain s1 where st: "step e s0 = Some s1" and r: "run es s1 = Some s"
    by (auto split: option.splits)
  from st have "threadStep e s0 = Some s1"
    by (simp add: step_def split: if_splits)
  then consider (main) "mainStep e s0 = Some s1" | (out) "outStep e s0 = Some s1"
    | (inn) "inStep e s0 = Some s1"
    using threadStep_thread by blast
  then have "ptyReleased s1 \<longrightarrow> mainPc s1 = M_Returned \<or> (\<exists>q. mainPc s1 = M_Panicked q)"
  proof cases
    case main
    from mainStep_released [OF this Cons.prems(2)] show ?thesis .
  next
    case out
    from outStep_released [OF this] Cons.prems(2) show ?thesis by simp
  next
    case inn
    from inStep_released [OF this] Cons.prems(2) show ?thesis by simp
  qed
  from Cons.IH [OF r this] show ?case .
qed

lemma release_after_loops:
  assumes "run es init = Some s" and "ptyReleased s"
    and "\<forall>q. mainPc s \<noteq> M_Panicked q"
  shows "mainPc s = M_Returned \<and> closed (ws s) \<and> loopsRunning s = 0"
proof -
  have "shutdownInv init" by (simp add: shutdownInv_def loopsRunning_def init_def)
  from run_shutdownInv [OF assms(1) this] have inv: "shutdownInv s" .
  have "\<not> ptyReleased init" by (simp add: ptyReleased_def init_def)
  with run_released [OF assms(1)] assms(2,3) have "mainPc s = M_Returned" by blast
  with inv show ?thesis by (simp add: shutdownInv_def)
qed


text \<open>
  Claim C6: after the process exits, the shutdown sequence closes the transport before
  waiting for the two stream loops, and releases the terminal handle only after both
  loops have exited, so no loop ever reads or writes a released terminal handle. That
  holds of every execution in which the function body does not panic
  (\<open>release_after_loops\<close>). In the execution below the device-to-transport loop is
  inside \<open>ptmx.Read\<close>, the other loop closes \<open>done\<close> on end-of-stream and returns, the
  process exits, \<open>close(done)\<close> in the function body panics, and the deferred
  \<open>ptmx.Close()\<close> releases the terminal: the websocket has not been closed, \<open>wg.Wait()\<close>
  has not run, and the first loop is still reading.
\<close>

theorem pty_released_while_loop_reads:
  \<open>run [PtyStart None, Select, WsRead [] (Some EOF), InStep, InStep, CmdWait None,
        MainStep, MainStep] init =
     Some \<lparr>mainPc = M_Panicked CloseOfClosedChannel, outPc = A_Read, inPc = B_Exited,
            ws = \<lparr>sent = [], closed = False\<rparr>,
            ptmx = Some \<lparr>winsize = \<lparr>Rows = 24, Cols = 80\<rparr>, written = [], released = True\<rparr>,
            doneClosed = True, wg = 1, interrupts = 1, logged = []\<rparr>\<close>
  by code_simp


end
